theory Spec2Isabelle
  imports Complex_Main "HOL-Library.AList"
begin

section \<open>Python primitives used by the fetcher and the registry\<close>

text \<open>
  Python's \<open>str(i)\<close> for an unbounded integer: decimal digits, most significant
  first, with a leading minus sign for a negative number.
\<close>

definition digit_char :: "nat \<Rightarrow> char" where
  "digit_char d = char_of (48 + d)"

fun str_nat :: "nat \<Rightarrow> string" where
  "str_nat n = (if n < 10 then [digit_char n]
                else str_nat (n div 10) @ [digit_char (n mod 10)])"

declare str_nat.simps [simp del]

definition str_int :: "int \<Rightarrow> string" where
  "str_int i = (if i < 0 then CHR ''-'' # str_nat (nat (- i)) else str_nat (nat i))"

text \<open>The value of a digit string, used to invert \<open>str_nat\<close>.\<close>

definition digit_val :: "char \<Rightarrow> nat" where
  "digit_val c = of_char c - 48"

definition digits_val :: "string \<Rightarrow> nat" where
  "digits_val ds = foldl (\<lambda>a c. 10 * a + digit_val c) 0 ds"

text \<open>
  Python's \<open>str.lower()\<close> on the ASCII range: the letters A to Z move to a to z,
  every other character stays.
\<close>

definition lower_char :: "char \<Rightarrow> char" where
  "lower_char c =
     (let n = (of_char c :: nat) in if 65 \<le> n \<and> n \<le> 90 then char_of (n + 32) else c)"

definition lower :: "string \<Rightarrow> string" where
  "lower s = map lower_char s"

section \<open>Paths (pathlib, POSIX flavour)\<close>

text \<open>
  A path is the list of its parts, as \<open>Path.parts\<close> gives them; an absolute path
  has the root \<open>/\<close> as its first part. Joining a string to a path (\<open>path / s\<close>)
  splits the string at the separator, drops empty and \<open>.\<close> components, and
  replaces the whole path when the string is absolute.
\<close>

type_synonym path = "string list"

fun split_sep :: "string \<Rightarrow> string \<Rightarrow> string list" where
  "split_sep cur [] = [cur]"
| "split_sep cur (c # cs) =
     (if c = CHR ''/'' then cur # split_sep [] cs else split_sep (cur @ [c]) cs)"

definition path_parts :: "string \<Rightarrow> path" where
  "path_parts s =
     (case s of
        [] \<Rightarrow> []
      | c # cs \<Rightarrow>
          (if c = CHR ''/'' then [''/''] else []) @
          filter (\<lambda>p. p \<noteq> [] \<and> p \<noteq> ''.'') (split_sep [] s))"

definition path_join :: "path \<Rightarrow> string \<Rightarrow> path" where
  "path_join p s =
     (case s of
        [] \<Rightarrow> p
      | c # cs \<Rightarrow> if c = CHR ''/'' then path_parts s else p @ path_parts s)"

section \<open>UK citations and the cache path\<close>

text \<open>
  \<open>UKCitation\<close> as the fetcher uses it: the fields \<open>type\<close>, \<open>year\<close>, \<open>number\<close>
  and \<open>section\<close> (here with the prefix \<open>c\<close>); the type is a string, year and
  number are integers (rendered with \<open>str\<close>), the section is an optional string.
\<close>

record UKCitation =
  ctype :: string
  cyear :: int
  cnumber :: int
  csection :: "string option"

text \<open>Python truthiness of an optional string: \<open>None\<close> and \<open>""\<close> are false.\<close>

fun truthy_str :: "string option \<Rightarrow> bool" where
  "truthy_str None = False"
| "truthy_str (Some s) = (s \<noteq> [])"

definition cache_path :: "path \<Rightarrow> UKCitation \<Rightarrow> path" where
  "cache_path data_dir citation =
     (let path = path_join (path_join (path_join data_dir (ctype citation))
                                      (str_int (cyear citation)))
                           (str_int (cnumber citation))
      in if truthy_str (csection citation)
         then path_join path (''section-'' @ the (csection citation) @ ''.xml'')
         else path_join path ''act.xml'')"

definition build_url :: "string \<Rightarrow> UKCitation \<Rightarrow> string \<Rightarrow> string" where
  "build_url base_url citation version =
     (let url = base_url @ ''/'' @ ctype citation @ ''/'' @ str_int (cyear citation)
                  @ ''/'' @ str_int (cnumber citation);
          url1 = (if truthy_str (csection citation)
                  then url @ ''/section/'' @ the (csection citation) else url);
          url2 = (if version \<noteq> [] then url1 @ ''/'' @ version else url1)
      in url2 @ ''/data.xml'')"

text \<open>
  A citation whose type is a single plain path component and whose section, when present,
  is non-empty and has no separator.
\<close>

definition plain_component :: "string \<Rightarrow> bool" where
  "plain_component s = (CHR ''/'' \<notin> set s \<and> s \<noteq> [] \<and> s \<noteq> ''.'')"

definition plain_citation :: "UKCitation \<Rightarrow> bool" where
  "plain_citation c =
     (plain_component (ctype c) \<and>
      (case csection c of None \<Rightarrow> True | Some s \<Rightarrow> s \<noteq> [] \<and> CHR ''/'' \<notin> set s))"

section \<open>The UK legislation fetcher\<close>

text \<open>
  Exceptions that leave the fetcher: \<open>httpx.HTTPStatusError\<close> with the status code of
  its response (raised by \<open>raise_for_status\<close>), any other failure of the HTTP client
  (timeouts and connection errors, which are not \<open>HTTPStatusError\<close>), and a failure
  of a CLML parser.
\<close>

datatype error = HTTPStatusError int | TransportError | ParseError

text \<open>
  What one \<open>client.get\<close> followed by \<open>raise_for_status\<close> gives: the text of a
  successful response, a response whose status raises, or no response at all.
\<close>

datatype http_outcome = Success string | StatusFailure int | TransportFailure

record UKAct =
  act_title :: string
  section_count :: "int option"

text \<open>
  The surroundings of a fetcher: the remote server and the parsers of
  \<open>arch.parsers.clml\<close> (\<open>None\<close> where a parser raises). The server may answer
  the same URL differently over time: \<open>http_get k url\<close> is the outcome of the request for \<open>url\<close> when \<open>k\<close> requests
  have been issued before it, \<open>http_time k\<close> the seconds that request takes.
\<close>

record 'sec env =
  http_get :: "nat \<Rightarrow> string \<Rightarrow> http_outcome"
  http_time :: "nat \<Rightarrow> rat"
  parse_section :: "string \<Rightarrow> 'sec option"
  parse_act_metadata :: "string \<Rightarrow> UKAct option"

text \<open>A parser that gives no result raises, and the exception leaves the caller.\<close>

fun parsed :: "'a option \<Rightarrow> error + 'a" where
  "parsed None = Inl ParseError"
| "parsed (Some x) = Inr x"

text \<open>
  The fetcher object (\<open>base_url\<close>, \<open>data_dir\<close>, \<open>rate_limit_delay\<close>,
  \<open>_last_request_time\<close>) together with what its methods read and change outside it:
  the wall clock, the files of the cache directory, and the list of requests sent so far,
  each with the time it was issued. Times are exact rationals, in seconds.
\<close>

record fetcher =
  base_url :: string
  data_dir :: path
  rate_limit_delay :: rat
  last_request_time :: rat
  clock :: rat
  files :: "path \<Rightarrow> string option"
  requests :: "(rat \<times> string) list"

definition init :: "path \<Rightarrow> string \<Rightarrow> rat \<Rightarrow> rat \<Rightarrow> (path \<Rightarrow> string option) \<Rightarrow> fetcher" where
  "init dir url delay now fs =
     \<lparr>base_url = url, data_dir = dir, rate_limit_delay = delay, last_request_time = 0,
      clock = now, files = fs, requests = []\<rparr>"

text \<open>\<open>_rate_limit\<close>: \<open>asyncio.sleep(d)\<close> moves the clock forward by \<open>d\<close>.\<close>

definition rate_limit :: "fetcher \<Rightarrow> fetcher" where
  "rate_limit f =
     (let now = clock f;
          elapsed = now - last_request_time f;
          f1 = (if elapsed < rate_limit_delay f
                then f\<lparr>clock := clock f + (rate_limit_delay f - elapsed)\<rparr> else f)
      in f1\<lparr>last_request_time := clock f1\<rparr>)"

definition fetch_xml :: "'sec env \<Rightarrow> string \<Rightarrow> fetcher \<Rightarrow> (error + string) \<times> fetcher" where
  "fetch_xml e url f =
     (let f1 = rate_limit f;
          k = length (requests f1);
          f2 = f1\<lparr>requests := requests f1 @ [(clock f1, url)],
                  clock := clock f1 + http_time e k\<rparr>
      in case http_get e k url of
           Success text \<Rightarrow> (Inr text, f2)
         | StatusFailure code \<Rightarrow> (Inl (HTTPStatusError code), f2)
         | TransportFailure \<Rightarrow> (Inl TransportError, f2))"

definition fetch_section ::
    "'sec env \<Rightarrow> UKCitation \<Rightarrow> bool \<Rightarrow> bool \<Rightarrow> fetcher \<Rightarrow> (error + 'sec) \<times> fetcher" where
  "fetch_section e citation cache force f =
     (let cp = cache_path (data_dir f) citation
      in if \<not> force \<and> files f cp \<noteq> None
         then (parsed (parse_section e (the (files f cp))), f)
         else (case fetch_xml e (build_url (base_url f) citation []) f of
                 (Inl err, f1) \<Rightarrow> (Inl err, f1)
               | (Inr xml_str, f1) \<Rightarrow>
                   (parsed (parse_section e xml_str),
                    if cache then f1\<lparr>files := (files f1)(cp \<mapsto> xml_str)\<rparr> else f1)))"

definition fetch_act_metadata ::
    "'sec env \<Rightarrow> UKCitation \<Rightarrow> bool \<Rightarrow> bool \<Rightarrow> fetcher \<Rightarrow> (error + UKAct) \<times> fetcher" where
  "fetch_act_metadata e citation cache force f =
     (let cp = cache_path (data_dir f) citation
      in if \<not> force \<and> files f cp \<noteq> None
         then (parsed (parse_act_metadata e (the (files f cp))), f)
         else (case fetch_xml e (build_url (base_url f) citation []) f of
                 (Inl err, f1) \<Rightarrow> (Inl err, f1)
               | (Inr xml_str, f1) \<Rightarrow>
                   (parsed (parse_act_metadata e xml_str),
                    if cache then f1\<lparr>files := (files f1)(cp \<mapsto> xml_str)\<rparr> else f1)))"

text \<open>The citation built in the loop body for section number \<open>i\<close>.\<close>

definition section_citation :: "UKCitation \<Rightarrow> int \<Rightarrow> UKCitation" where
  "section_citation citation i =
     \<lparr>ctype = ctype citation, cyear = cyear citation, cnumber = cnumber citation,
      csection = Some (str_int i)\<rparr>"

text \<open>
  The loop of \<open>fetch_act_sections\<close> over the section numbers still to visit, with the
  list \<open>sections\<close> collected so far. A 404 status is caught and the loop goes on; every
  other exception leaves the loop and the method.
\<close>

fun fetch_sections_loop ::
    "'sec env \<Rightarrow> UKCitation \<Rightarrow> int list \<Rightarrow> fetcher \<Rightarrow> 'sec list \<Rightarrow> (error + 'sec list) \<times> fetcher" where
  "fetch_sections_loop e citation [] f sections = (Inr sections, f)"
| "fetch_sections_loop e citation (i # is) f sections =
     (case fetch_section e (section_citation citation i) True False f of
        (Inr sec, f1) \<Rightarrow> fetch_sections_loop e citation is f1 (sections @ [sec])
      | (Inl (HTTPStatusError code), f1) \<Rightarrow>
          if code = 404 then fetch_sections_loop e citation is f1 sections
          else (Inl (HTTPStatusError code), f1)
      | (Inl err, f1) \<Rightarrow> (Inl err, f1))"

text \<open>
  The numbers the loop ranges over: \<open>range(1, section_count + 1)\<close> after
  \<open>section_count = act.section_count or 1000\<close> and, when \<open>max_sections\<close> is truthy,
  \<open>section_count = min(section_count, max_sections)\<close>.
\<close>

definition section_range :: "int option \<Rightarrow> int option \<Rightarrow> int list" where
  "section_range count max_sections =
     (let section_count = (case count of None \<Rightarrow> 1000 | Some n \<Rightarrow> if n = 0 then 1000 else n);
          section_count1 = (case max_sections of
                              None \<Rightarrow> section_count
                            | Some m \<Rightarrow> if m \<noteq> 0 then min section_count m else section_count)
      in [1..section_count1])"

definition fetch_act_sections ::
    "'sec env \<Rightarrow> UKCitation \<Rightarrow> int option \<Rightarrow> fetcher \<Rightarrow> (error + 'sec list) \<times> fetcher" where
  "fetch_act_sections e citation max_sections f =
     (case fetch_act_metadata e citation True False f of
        (Inl err, f1) \<Rightarrow> (Inl err, f1)
      | (Inr act, f1) \<Rightarrow>
          fetch_sections_loop e citation (section_range (section_count act) max_sections) f1 [])"

text \<open>
  The same loop, keeping with every collected section the number it was fetched for.
\<close>

fun fetch_sections_numbered ::
    "'sec env \<Rightarrow> UKCitation \<Rightarrow> int list \<Rightarrow> fetcher \<Rightarrow> (error + (int \<times> 'sec) list) \<times> fetcher" where
  "fetch_sections_numbered e citation [] f = (Inr [], f)"
| "fetch_sections_numbered e citation (i # is) f =
     (case fetch_section e (section_citation citation i) True False f of
        (Inr sec, f1) \<Rightarrow>
          (case fetch_sections_numbered e citation is f1 of
             (Inr ps, f2) \<Rightarrow> (Inr ((i, sec) # ps), f2)
           | (Inl err, f2) \<Rightarrow> (Inl err, f2))
      | (Inl (HTTPStatusError code), f1) \<Rightarrow>
          if code = 404 then fetch_sections_numbered e citation is f1
          else (Inl (HTTPStatusError code), f1)
      | (Inl err, f1) \<Rightarrow> (Inl err, f1))"

text \<open>The URLs requested, in the order they were sent.\<close>

definition requested :: "fetcher \<Rightarrow> string list" where
  "requested f = map snd (requests f)"



text \<open>
  The failures of the HTTP client that the handler in \<open>fetch_act_sections\<close> raises again:
  every status error but 404, and every failure without a response.
\<close>

fun reraised :: "error \<Rightarrow> bool" where
  "reraised (HTTPStatusError code) = (code \<noteq> 404)"
| "reraised TransportError = True"
| "reraised ParseError = False"

text \<open>The URL requested for section number \<open>i\<close> of an act.\<close>

definition section_url :: "fetcher \<Rightarrow> UKCitation \<Rightarrow> int \<Rightarrow> string" where
  "section_url f citation i = build_url (base_url f) (section_citation citation i) []"

subsection \<open>A concrete setting\<close>

text \<open>
  A server that answers its \<open>k\<close>-th request with \<open>script k\<close>, whatever the URL, and
  takes no time; parsers that keep the text as the section and give every act the section
  count \<open>count\<close>.
\<close>

definition scripted_env :: "(nat \<Rightarrow> http_outcome) \<Rightarrow> int option \<Rightarrow> string env" where
  "scripted_env script count =
     \<lparr>http_get = (\<lambda>k url. script k),
      http_time = (\<lambda>k. 0),
      parse_section = Some,
      parse_act_metadata = (\<lambda>xml. Some \<lparr>act_title = xml, section_count = count\<rparr>)\<rparr>"

definition ukpga_2003_1 :: UKCitation where
  "ukpga_2003_1 = \<lparr>ctype = ''ukpga'', cyear = 2003, cnumber = 1, csection = None\<rparr>"

text \<open>A new fetcher with the default delay of 0.2 seconds and an empty cache.\<close>

definition new_fetcher :: fetcher where
  "new_fetcher = init [''/'', ''data''] ''https://www.legislation.gov.uk'' (1 / 5) 1000 (\<lambda>p. None)"

text \<open>
  Three servers: one whose second answer is a 503 and every other answer a document, one
  whose second answer is a 404, and one that always answers with a document.
\<close>

definition fails_once_503 :: "nat \<Rightarrow> http_outcome" where
  "fails_once_503 k = (if k = 1 then StatusFailure 503 else Success ''<x/>'')"

definition not_found_once :: "nat \<Rightarrow> http_outcome" where
  "not_found_once k = (if k = 1 then StatusFailure 404 else Success ''<x/>'')"

definition always_ok :: "nat \<Rightarrow> http_outcome" where
  "always_ok k = Success ''<x/>''"

text \<open>A new fetcher whose cache already holds the document of the act.\<close>

definition cached_fetcher :: fetcher where
  "cached_fetcher =
     new_fetcher\<lparr>files := [cache_path (data_dir new_fetcher) ukpga_2003_1 \<mapsto> ''<act/>'']\<rparr>"

text \<open>A server whose first answer, the one for the act itself, is a 404.\<close>

definition act_not_found :: "nat \<Rightarrow> http_outcome" where
  "act_not_found k = (if k = 0 then StatusFailure 404 else Success ''<x/>'')"

subsection \<open>Two tasks on one fetcher\<close>

text \<open>
  The methods are coroutines, and \<open>_rate_limit\<close> has one point where it gives way to
  other tasks: \<open>await asyncio.sleep\<close>. Before it the method reads the clock and
  \<open>_last_request_time\<close> and computes the time to sleep (0 when it does not sleep);
  after it the method writes \<open>_last_request_time\<close>. \<open>rate_limit_sleep\<close> is the first
  half and \<open>rate_limit_stamp\<close> the second; \<open>send_request\<close> is the rest of
  \<open>_fetch_xml\<close>.
\<close>

definition rate_limit_sleep :: "fetcher \<Rightarrow> rat" where
  "rate_limit_sleep f =
     (let now = clock f;
          elapsed = now - last_request_time f
      in if elapsed < rate_limit_delay f then rate_limit_delay f - elapsed else 0)"

definition rate_limit_stamp :: "fetcher \<Rightarrow> fetcher" where
  "rate_limit_stamp f = f\<lparr>last_request_time := clock f\<rparr>"

definition send_request :: "'sec env \<Rightarrow> string \<Rightarrow> fetcher \<Rightarrow> (error + string) \<times> fetcher" where
  "send_request e url f1 =
     (let k = length (requests f1);
          f2 = f1\<lparr>requests := requests f1 @ [(clock f1, url)],
                  clock := clock f1 + http_time e k\<rparr>
      in case http_get e k url of
           Success text \<Rightarrow> (Inr text, f2)
         | StatusFailure code \<Rightarrow> (Inl (HTTPStatusError code), f2)
         | TransportFailure \<Rightarrow> (Inl TransportError, f2))"

text \<open>A sleeping task goes on when the clock has reached the time it sleeps until.\<close>

definition wake :: "rat \<Rightarrow> fetcher \<Rightarrow> fetcher" where
  "wake t f = f\<lparr>clock := max (clock f) t\<rparr>"



section \<open>The registry of statute sources\<close>

text \<open>
  \<open>SourceConfig\<close> with the fields the registry fills in (\<open>base_url\<close> and
  \<open>rate_limit\<close> carry the prefix \<open>cfg\<close> here, the fetcher having names of its own).
\<close>

record SourceConfig =
  jurisdiction :: string
  name :: string
  source_type :: string
  cfg_base_url :: string
  api_key :: "string option"
  section_url_pattern :: "string option"
  toc_url_pattern :: "string option"
  content_selector :: "string option"
  title_selector :: "string option"
  history_selector :: "string option"
  codes :: "(string \<times> string) list"
  priority_codes :: "string list"
  cfg_rate_limit :: rat
  max_retries :: int
  custom_parser :: "string option"

text \<open>The adapters, each with the argument its constructor is given.\<close>

datatype StatuteSource =
    USLMSource SourceConfig
  | APISource SourceConfig
  | NYLegislationSource "string option"
  | HTMLSource SourceConfig

fun adapter_class :: "StatuteSource \<Rightarrow> string" where
  "adapter_class (USLMSource c) = ''USLMSource''"
| "adapter_class (APISource c) = ''APISource''"
| "adapter_class (NYLegislationSource k) = ''NYLegislationSource''"
| "adapter_class (HTMLSource c) = ''HTMLSource''"

text \<open>
  The module-level dictionary \<open>_SOURCE_CONFIGS\<close>, as the list of its items. The built-in
  table and the configurations read from the YAML files are parameters.
\<close>

type_synonym configs = "(string \<times> SourceConfig) list"

definition dict_update :: "configs \<Rightarrow> configs \<Rightarrow> configs" where
  "dict_update d other = fold (\<lambda>(k, v). AList.update k v) other d"

text \<open>
  \<open>get_all_configs\<close> fills the empty dictionary and returns it; the result is both the
  new \<open>_SOURCE_CONFIGS\<close> and the dictionary returned.
\<close>

definition get_all_configs :: "configs \<Rightarrow> configs \<Rightarrow> configs \<Rightarrow> configs" where
  "get_all_configs builtin yaml cfgs = (if cfgs = [] then dict_update builtin yaml else cfgs)"

definition get_config_for_jurisdiction ::
    "configs \<Rightarrow> configs \<Rightarrow> string \<Rightarrow> configs \<Rightarrow> SourceConfig option \<times> configs" where
  "get_config_for_jurisdiction builtin yaml j cfgs =
     (let configs = get_all_configs builtin yaml cfgs
      in (map_of configs (lower j), configs))"

text \<open>
  The adapter is chosen from the source type, and inside the \<open>api\<close> branch from the
  jurisdiction as it was passed in. A configuration object counts as true, so the early
  return is taken exactly when the lookup gives \<open>None\<close>.
\<close>

definition get_source_for_jurisdiction ::
    "configs \<Rightarrow> configs \<Rightarrow> string \<Rightarrow> configs \<Rightarrow> StatuteSource option \<times> configs" where
  "get_source_for_jurisdiction builtin yaml j cfgs =
     (case get_config_for_jurisdiction builtin yaml j cfgs of
        (None, cfgs1) \<Rightarrow> (None, cfgs1)
      | (Some config, cfgs1) \<Rightarrow>
          (Some (if source_type config = ''uslm'' then USLMSource config
                 else if source_type config = ''api''
                      then (if j = ''us-ny'' then NYLegislationSource (api_key config)
                            else APISource config)
                 else HTMLSource config),
           cfgs1))"

definition register_source :: "string \<Rightarrow> SourceConfig \<Rightarrow> configs \<Rightarrow> configs" where
  "register_source j config cfgs = AList.update (lower j) config cfgs"

text \<open>A configuration of an API source, and a registry holding it for two jurisdictions.\<close>

definition api_config :: SourceConfig where
  "api_config =
     \<lparr>jurisdiction = ''us-ny'', name = ''New York'', source_type = ''api'',
      cfg_base_url = ''https://legislation.nysenate.gov'', api_key = Some ''key'',
      section_url_pattern = None, toc_url_pattern = None, content_selector = None,
      title_selector = None, history_selector = None, codes = [], priority_codes = [],
      cfg_rate_limit = 1 / 2, max_retries = 3, custom_parser = None\<rparr>"

definition two_api_registry :: configs where
  "two_api_registry = register_source ''us-xx'' api_config (register_source ''us-ny'' api_config [])"

section \<open>The listing of the IRS drop folder\<close>

datatype GuidanceType = REV_PROC | REV_RUL | NOTICE | ANNOUNCEMENT

fun guidance_label :: "GuidanceType \<Rightarrow> string" where
  "guidance_label REV_PROC = ''Revenue Procedure''"
| "guidance_label REV_RUL = ''Revenue Ruling''"
| "guidance_label NOTICE = ''Notice''"
| "guidance_label ANNOUNCEMENT = ''Announcement''"

record IRSDropDocument =
  doc_type :: GuidanceType
  doc_number :: string
  year :: int
  pdf_filename :: string

definition is_digit :: "char \<Rightarrow> bool" where
  "is_digit c = (c \<in> set ''0123456789'')"

fun split_on :: "char \<Rightarrow> string \<Rightarrow> string \<Rightarrow> string list" where
  "split_on sep cur [] = [cur]"
| "split_on sep cur (c # cs) =
     (if c = sep then cur # split_on sep [] cs else split_on sep (cur @ [c]) cs)"

definition ends_with :: "string \<Rightarrow> string \<Rightarrow> bool" where
  "ends_with suf s = (length suf \<le> length s \<and> drop (length s - length suf) s = suf)"

text \<open>
  The values of the \<open>href\<close> attributes, read from the pieces of the page between double
  quotes: a piece that follows one ending in \<open>href=\<close> is a value.
\<close>

fun href_values :: "string list \<Rightarrow> string list" where
  "href_values (a # b # rest) =
     (if ends_with ''href='' a then b # href_values rest else href_values (b # rest))"
| "href_values rest = []"

fun prefix_type :: "string \<Rightarrow> GuidanceType option" where
  "prefix_type p =
     (if p = ''rp'' then Some REV_PROC
      else if p = ''rr'' then Some REV_RUL
      else if p = ''n'' then Some NOTICE
      else if p = ''a'' then Some ANNOUNCEMENT
      else None)"

text \<open>
  Modelled from the spec: the recognition of one file name by \<open>parse_irs_drop_listing\<close>
  of \<open>atlas.fetchers.irs_bulk\<close>, which is not among the sources; only its tests are.
  Following the scenario of the specification and those tests, a file named
  \<open>prefix-YY-N.pdf\<close>, with the prefix \<open>rp\<close>, \<open>rr\<close>, \<open>n\<close> or \<open>a\<close>, two
  digits \<open>YY\<close> and digits \<open>N\<close>, is a guidance document of the year \<open>2000 + YY\<close>
  with the number \<open>20YY-N\<close>; no other name is a guidance document.
\<close>

definition parse_drop_filename :: "string \<Rightarrow> IRSDropDocument option" where
  "parse_drop_filename fn =
     (case split_on CHR ''-'' [] fn of
        [p, yy, rest] \<Rightarrow>
          (case prefix_type p of
             None \<Rightarrow> None
           | Some t \<Rightarrow>
               (let num = take (length rest - 4) rest
                in if length yy = 2 \<and> list_all is_digit yy \<and> ends_with ''.pdf'' rest
                      \<and> num \<noteq> [] \<and> list_all is_digit num
                   then Some \<lparr>doc_type = t,
                              doc_number = str_int (2000 + int (digits_val yy)) @ ''-'' @ num,
                              year = 2000 + int (digits_val yy),
                              pdf_filename = fn\<rparr>
                   else None))
      | _ \<Rightarrow> None)"

text \<open>
  Modelled from the spec: \<open>parse_irs_drop_listing\<close> of \<open>atlas.fetchers.irs_bulk\<close>,
  which is not among the sources. The documents are those recognised among the links of
  the page, in the order of the page; the optional arguments keep the documents of one
  year and of the listed types.
\<close>

definition parse_irs_drop_listing ::
    "string \<Rightarrow> int option \<Rightarrow> GuidanceType list option \<Rightarrow> IRSDropDocument list" where
  "parse_irs_drop_listing html yr doc_types =
     filter (\<lambda>d. (case yr of None \<Rightarrow> True | Some y \<Rightarrow> year d = y) \<and>
                 (case doc_types of None \<Rightarrow> True | Some ts \<Rightarrow> doc_type d \<in> set ts))
       (List.map_filter parse_drop_filename (href_values (split_on (CHR 0x22) [] html)))"

section \<open>Facts about the primitives\<close>

lemma digit_val_digit_char: "d < 10 \<Longrightarrow> digit_val (digit_char d) = d"
  by (simp add: digit_val_def digit_char_def)

lemma digits_val_snoc: "digits_val (ds @ [c]) = 10 * digits_val ds + digit_val c"
  by (simp add: digits_val_def)

lemma digits_val_str_nat: "digits_val (str_nat n) = n"
proof (induction n rule: str_nat.induct)
  case (1 n)
  show ?case
  proof (cases "n < 10")
    case True
    then show ?thesis
      by (subst str_nat.simps) (simp add: digits_val_def digit_val_digit_char)
  next
    case False
    with 1 have "digits_val (str_nat (n div 10)) = n div 10" by simp
    with False show ?thesis
      by (subst str_nat.simps) (simp add: digits_val_snoc digit_val_digit_char)
  qed
qed

lemma str_nat_inj: "str_nat m = str_nat n \<Longrightarrow> m = n"
  by (metis digits_val_str_nat)

lemma digit_char_not_special:
  "d < 10 \<Longrightarrow> digit_char d \<noteq> CHR ''-'' \<and> digit_char d \<noteq> CHR ''/'' \<and> digit_char d \<noteq> CHR ''.''"
proof -
  assume "d < 10"
  then have "of_char (digit_char d) = 48 + d"
    by (simp add: digit_char_def)
  moreover have "(of_char (CHR ''-'') :: nat) = 45" "(of_char (CHR ''/'') :: nat) = 47"
    "(of_char (CHR ''.'') :: nat) = 46"
    by simp_all
  ultimately have "(of_char (digit_char d) :: nat) \<noteq> of_char (CHR ''-'')"
    "(of_char (digit_char d) :: nat) \<noteq> of_char (CHR ''/'')"
    "(of_char (digit_char d) :: nat) \<noteq> of_char (CHR ''.'')"
    by simp_all
  then show ?thesis
    by auto
qed

lemma split_sep_no_sep: "CHR ''/'' \<notin> set s \<Longrightarrow> split_sep cur s = [cur @ s]"
  by (induction s arbitrary: cur) auto

lemma path_parts_single:
  "CHR ''/'' \<notin> set s \<Longrightarrow> s \<noteq> [] \<Longrightarrow> s \<noteq> ''.'' \<Longrightarrow> path_parts s = [s]"
  by (cases s) (auto simp: path_parts_def split_sep_no_sep)

lemma path_join_single:
  "CHR ''/'' \<notin> set s \<Longrightarrow> s \<noteq> [] \<Longrightarrow> s \<noteq> ''.'' \<Longrightarrow> path_join p s = p @ [s]"
  by (cases s) (auto simp: path_join_def path_parts_single)

lemma str_nat_digits: "c \<in> set (str_nat n) \<Longrightarrow> \<exists>d<10. c = digit_char d"
proof (induction n rule: str_nat.induct)
  case (1 n)
  show ?case
  proof (cases "n < 10")
    case True
    with "1.prems" show ?thesis
      by (subst (asm) str_nat.simps) auto
  next
    case False
    with "1.prems" have "c \<in> set (str_nat (n div 10)) \<or> c = digit_char (n mod 10)"
      by (subst (asm) str_nat.simps) auto
    then show ?thesis
    proof
      assume "c \<in> set (str_nat (n div 10))"
      with False "1.IH" show ?thesis by blast
    next
      assume "c = digit_char (n mod 10)"
      moreover have "n mod 10 < 10" by simp
      ultimately show ?thesis by blast
    qed
  qed
qed

lemma str_nat_nonempty: "str_nat n \<noteq> []"
  by (subst str_nat.simps) simp

lemma str_nat_no_special:
  "CHR ''-'' \<notin> set (str_nat n) \<and> CHR ''/'' \<notin> set (str_nat n) \<and> CHR ''.'' \<notin> set (str_nat n)"
proof -
  have "\<And>c. c \<in> set (str_nat n) \<Longrightarrow> c \<noteq> CHR ''-'' \<and> c \<noteq> CHR ''/'' \<and> c \<noteq> CHR ''.''"
  proof -
    fix c assume "c \<in> set (str_nat n)"
    then obtain d where "d < 10" "c = digit_char d"
      using str_nat_digits by blast
    then show "c \<noteq> CHR ''-'' \<and> c \<noteq> CHR ''/'' \<and> c \<noteq> CHR ''.''"
      using digit_char_not_special by simp
  qed
  then show ?thesis by blast
qed

lemma str_int_inj: "str_int i = str_int j \<Longrightarrow> i = j"
proof -
  assume eq: "str_int i = str_int j"
  have hd_neg: "\<And>n. hd (str_nat n) \<noteq> CHR ''-''"
    using str_nat_no_special str_nat_nonempty by (metis hd_in_set)
  show ?thesis
  proof (cases "i < 0")
    case True
    show ?thesis
    proof (cases "j < 0")
      case jn: True
      with True eq have "str_nat (nat (- i)) = str_nat (nat (- j))"
        by (simp add: str_int_def)
      then have "nat (- i) = nat (- j)" by (rule str_nat_inj)
      with True jn show ?thesis by simp
    next
      case False
      with True eq have "CHR ''-'' # str_nat (nat (- i)) = str_nat (nat j)"
        by (simp add: str_int_def)
      then have "hd (str_nat (nat j)) = CHR ''-''" by (metis list.sel(1))
      with hd_neg show ?thesis by blast
    qed
  next
    case False
    show ?thesis
    proof (cases "j < 0")
      case True
      with False eq have "CHR ''-'' # str_nat (nat (- j)) = str_nat (nat i)"
        by (simp add: str_int_def)
      then have "hd (str_nat (nat i)) = CHR ''-''" by (metis list.sel(1))
      with hd_neg show ?thesis by blast
    next
      case jp: False
      with False eq have "str_nat (nat i) = str_nat (nat j)"
        by (simp add: str_int_def)
      then have "nat i = nat j" by (rule str_nat_inj)
      with False jp show ?thesis by simp
    qed
  qed
qed

lemma str_int_component:
  "CHR ''/'' \<notin> set (str_int i)" "str_int i \<noteq> []" "str_int i \<noteq> ''.''"
proof -
  show "CHR ''/'' \<notin> set (str_int i)"
    using str_nat_no_special by (simp add: str_int_def)
  show "str_int i \<noteq> []"
    using str_nat_nonempty by (simp add: str_int_def)
  show "str_int i \<noteq> ''.''"
  proof
    assume a: "str_int i = ''.''"
    then have "CHR ''.'' \<in> set (str_int i)" by simp
    then show False using str_nat_no_special [of "nat i"] str_nat_no_special [of "nat (- i)"]
      by (auto simp: str_int_def split: if_splits)
  qed
qed

lemma cache_path_plain:
  assumes "plain_citation c"
  shows "cache_path d c = d @ [ctype c, str_int (cyear c), str_int (cnumber c),
           (case csection c of None \<Rightarrow> ''act.xml'' | Some s \<Rightarrow> ''section-'' @ s @ ''.xml'')]"
proof -
  have base: "path_join (path_join (path_join d (ctype c)) (str_int (cyear c))) (str_int (cnumber c))
      = d @ [ctype c, str_int (cyear c), str_int (cnumber c)]"
    using assms by (simp add: path_join_single str_int_component plain_component_def plain_citation_def)
  show ?thesis
  proof (cases "csection c")
    case None
    then show ?thesis
      unfolding cache_path_def Let_def base by (simp add: path_join_single)
  next
    case (Some s)
    with assms have s: "s \<noteq> []" "CHR ''/'' \<notin> set s" by (auto simp: plain_citation_def)
    then have "path_join (d @ [ctype c, str_int (cyear c), str_int (cnumber c)]) (''section-'' @ s @ ''.xml'')
       = d @ [ctype c, str_int (cyear c), str_int (cnumber c)] @ [''section-'' @ s @ ''.xml'']"
      by (subst path_join_single) auto
    with Some s show ?thesis
      unfolding cache_path_def Let_def base by simp
  qed
qed


lemma lower_char_idem: "lower_char (lower_char c) = lower_char c"
  by (simp add: lower_char_def Let_def)

lemma lower_idem: "lower (lower s) = lower s"
  by (simp add: lower_def lower_char_idem)

section \<open>The cache path\<close>

text \<open>
  C6, as stated, does not hold: the cache path is a function of the citation, but two
  distinct citations can share a path. A citation whose section is the empty string is
  sent to \<open>act.xml\<close>, the path of the citation with no section, because the test
  \<open>if citation.section\<close> takes the empty string for an absent section.
\<close>

theorem cache_path_collision:
  "\<lparr>ctype = ''ukpga'', cyear = 2003, cnumber = 1, csection = Some ''''\<rparr>
     \<noteq> \<lparr>ctype = ''ukpga'', cyear = 2003, cnumber = 1, csection = None\<rparr>
   \<and> cache_path [''/'', ''data''] \<lparr>ctype = ''ukpga'', cyear = 2003, cnumber = 1, csection = Some ''''\<rparr>
     = cache_path [''/'', ''data''] \<lparr>ctype = ''ukpga'', cyear = 2003, cnumber = 1, csection = None\<rparr>"
  by (simp add: cache_path_def)

text \<open>
  C6, amended: for one data directory the cache path is a function of the citation, and it
  is injective on the citations whose type is a single plain path component (non-empty,
  not \<open>.\<close>, without \<open>/\<close>) and whose section, when present, is non-empty and without
  \<open>/\<close>: two such citations have the same path exactly when they agree on type, year,
  number and section, a present section never colliding with an absent one.
\<close>

theorem cache_path_injective:
  assumes "plain_citation c1" and "plain_citation c2"
  shows "(cache_path d c1 = cache_path d c2) = (c1 = c2)"
proof
  assume same: "cache_path d c1 = cache_path d c2"
  with assms have eq: "ctype c1 = ctype c2" "str_int (cyear c1) = str_int (cyear c2)"
    "str_int (cnumber c1) = str_int (cnumber c2)"
    "(case csection c1 of None \<Rightarrow> ''act.xml'' | Some s \<Rightarrow> ''section-'' @ s @ ''.xml'')
      = (case csection c2 of None \<Rightarrow> ''act.xml'' | Some s \<Rightarrow> ''section-'' @ s @ ''.xml'')"
    by (simp_all add: cache_path_plain)
  from eq(4) have "csection c1 = csection c2"
    by (auto split: option.splits)
  with eq str_int_inj show "c1 = c2"
    by (intro UKCitation.equality) auto
next
  assume "c1 = c2"
  then show "cache_path d c1 = cache_path d c2" by simp
qed

text \<open>
  The amended C6 at two citations of one act: section 1 and the act itself are plain and
  are stored at different paths.
\<close>

theorem cache_path_injective_witness:
  "plain_citation \<lparr>ctype = ''ukpga'', cyear = 2003, cnumber = 1, csection = Some ''1''\<rparr>
   \<and> plain_citation \<lparr>ctype = ''ukpga'', cyear = 2003, cnumber = 1, csection = None\<rparr>
   \<and> cache_path [''/'', ''data''] \<lparr>ctype = ''ukpga'', cyear = 2003, cnumber = 1, csection = Some ''1''\<rparr>
     \<noteq> cache_path [''/'', ''data''] \<lparr>ctype = ''ukpga'', cyear = 2003, cnumber = 1, csection = None\<rparr>"
proof -
  have p1: "plain_citation \<lparr>ctype = ''ukpga'', cyear = 2003, cnumber = 1, csection = Some ''1''\<rparr>"
    by (simp add: plain_citation_def plain_component_def)
  have p2: "plain_citation \<lparr>ctype = ''ukpga'', cyear = 2003, cnumber = 1, csection = None\<rparr>"
    by (simp add: plain_citation_def plain_component_def)
  show ?thesis
    using p1 p2 cache_path_injective [OF p1 p2, of "[''/'', ''data'']"] by simp
qed

section \<open>Facts about the fetcher\<close>

lemma rate_limit_fields:
  "base_url (rate_limit f) = base_url f" "data_dir (rate_limit f) = data_dir f"
  "rate_limit_delay (rate_limit f) = rate_limit_delay f" "files (rate_limit f) = files f"
  "requests (rate_limit f) = requests f"
  by (simp_all add: rate_limit_def Let_def)


lemma rate_limit_stamp: "last_request_time (rate_limit f) = clock (rate_limit f)"
  by (simp add: rate_limit_def Let_def)


lemma fetch_xml_fields:
  "base_url (snd (fetch_xml e url f)) = base_url f"
  "data_dir (snd (fetch_xml e url f)) = data_dir f"
  "rate_limit_delay (snd (fetch_xml e url f)) = rate_limit_delay f"
  "files (snd (fetch_xml e url f)) = files f"
  by (simp_all add: fetch_xml_def Let_def rate_limit_fields split: http_outcome.splits)

lemma fetch_xml_requests:
  "requests (snd (fetch_xml e url f)) = requests f @ [(last_request_time (rate_limit f), url)]"
  "last_request_time (snd (fetch_xml e url f)) = last_request_time (rate_limit f)"
  by (simp_all add: fetch_xml_def Let_def rate_limit_fields rate_limit_stamp split: http_outcome.splits)



lemma fetch_section_cases:
  "fetch_section e c cache force f =
     (if \<not> force \<and> files f (cache_path (data_dir f) c) \<noteq> None
      then (parsed (parse_section e (the (files f (cache_path (data_dir f) c)))), f)
      else (case fst (fetch_xml e (build_url (base_url f) c []) f) of
              Inl err \<Rightarrow> (Inl err, snd (fetch_xml e (build_url (base_url f) c []) f))
            | Inr xml_str \<Rightarrow>
                (parsed (parse_section e xml_str),
                 if cache
                 then (snd (fetch_xml e (build_url (base_url f) c []) f))
                        \<lparr>files := (files f)(cache_path (data_dir f) c \<mapsto> xml_str)\<rparr>
                 else snd (fetch_xml e (build_url (base_url f) c []) f))))"
  by (auto simp: fetch_section_def Let_def fetch_xml_fields split: prod.splits sum.splits)
     (metis fetch_xml_fields(4) snd_conv)+


lemma fetch_act_metadata_cases:
  "fetch_act_metadata e c cache force f =
     (if \<not> force \<and> files f (cache_path (data_dir f) c) \<noteq> None
      then (parsed (parse_act_metadata e (the (files f (cache_path (data_dir f) c)))), f)
      else (case fst (fetch_xml e (build_url (base_url f) c []) f) of
              Inl err \<Rightarrow> (Inl err, snd (fetch_xml e (build_url (base_url f) c []) f))
            | Inr xml_str \<Rightarrow>
                (parsed (parse_act_metadata e xml_str),
                 if cache
                 then (snd (fetch_xml e (build_url (base_url f) c []) f))
                        \<lparr>files := (files f)(cache_path (data_dir f) c \<mapsto> xml_str)\<rparr>
                 else snd (fetch_xml e (build_url (base_url f) c []) f))))"
  by (auto simp: fetch_act_metadata_def Let_def fetch_xml_fields split: prod.splits sum.splits)
     (metis fetch_xml_fields(4) snd_conv)+


lemma fetch_xml_requested:
  "requested (snd (fetch_xml e url f)) = requested f @ [url]"
  by (simp add: requested_def fetch_xml_requests)

lemma requested_files: "requested (f\<lparr>files := fs\<rparr>) = requested f"
  by (simp add: requested_def)



lemma fetch_section_requested:
  "requested (snd (fetch_section e c cache force f)) =
     (if \<not> force \<and> files f (cache_path (data_dir f) c) \<noteq> None then requested f
      else requested f @ [build_url (base_url f) c []])"
  by (simp add: fetch_section_cases fetch_xml_requested requested_files split: sum.splits)

lemma fetch_act_metadata_requested:
  "requested (snd (fetch_act_metadata e c cache force f)) =
     (if \<not> force \<and> files f (cache_path (data_dir f) c) \<noteq> None then requested f
      else requested f @ [build_url (base_url f) c []])"
  by (simp add: fetch_act_metadata_cases fetch_xml_requested requested_files split: sum.splits)

lemma fetch_section_fields:
  "base_url (snd (fetch_section e c cache force f)) = base_url f"
  "data_dir (snd (fetch_section e c cache force f)) = data_dir f"
  "rate_limit_delay (snd (fetch_section e c cache force f)) = rate_limit_delay f"
  by (simp_all add: fetch_section_cases fetch_xml_fields split: sum.splits)


text \<open>A failure of the HTTP client in \<open>fetch_section\<close> comes after exactly one request.\<close>

lemma fetch_section_http_error:
  assumes "fetch_section e c cache force f = (Inl err, f1)" and "err \<noteq> ParseError"
  shows "requested f1 = requested f @ [build_url (base_url f) c []]"
proof -
  have miss: "\<not> (\<not> force \<and> files f (cache_path (data_dir f) c) \<noteq> None)"
  proof
    assume "\<not> force \<and> files f (cache_path (data_dir f) c) \<noteq> None"
    then have "fetch_section e c cache force f
        = (parsed (parse_section e (the (files f (cache_path (data_dir f) c)))), f)"
      by (simp add: fetch_section_cases)
    with assms(1) have "parsed (parse_section e (the (files f (cache_path (data_dir f) c)))) = Inl err"
      by (metis fst_conv)
    with assms(2) show False
      by (cases "parse_section e (the (files f (cache_path (data_dir f) c)))") auto
  qed
  have "f1 = snd (fetch_section e c cache force f)"
    using assms(1) by simp
  with miss show ?thesis
    by (simp add: fetch_section_requested)
qed




lemma section_url_inj: "section_url f c i = section_url f c j \<Longrightarrow> i = j"
  by (rule str_int_inj) (simp add: section_url_def build_url_def section_citation_def str_int_component)

lemma section_step_requested:
  "requested (snd (fetch_section e (section_citation c i) True False f)) = requested f
   \<or> requested (snd (fetch_section e (section_citation c i) True False f))
       = requested f @ [section_url f c i]"
  by (simp add: fetch_section_requested section_url_def)

lemma loop_base_url: "base_url (snd (fetch_sections_loop e c is f acc)) = base_url f"
proof (induction "is" arbitrary: f acc)
  case Nil
  then show ?case by simp
next
  case (Cons i "is")
  have b: "base_url (snd (fetch_section e (section_citation c i) True False f)) = base_url f"
    by (rule fetch_section_fields)
  show ?case
  proof (cases "fetch_section e (section_citation c i) True False f")
    case (Pair r f1)
    with b have b1: "base_url f1 = base_url f" by simp
    show ?thesis
    proof (cases r)
      case (Inr sec)
      with Pair b1 Cons.IH show ?thesis by simp
    next
      case (Inl err)
      with Pair b1 Cons.IH show ?thesis
        by (cases err) simp_all
    qed
  qed
qed

lemma loop_requested:
  "\<exists>us. requested (snd (fetch_sections_loop e c is f acc)) = requested f @ us
        \<and> set us \<subseteq> section_url f c ` set is"
proof (induction "is" arbitrary: f acc)
  case Nil
  then show ?case by simp
next
  case (Cons i "is")
  obtain r f1 where step: "fetch_section e (section_citation c i) True False f = (r, f1)"
    by (cases "fetch_section e (section_citation c i) True False f")
  have b1: "base_url f1 = base_url f"
    using fetch_section_fields(1) [of e "section_citation c i" True False f] step by simp
  from section_step_requested [of e c i f] step
  obtain u1 where u1: "requested f1 = requested f @ u1" "set u1 \<subseteq> {section_url f c i}"
    by auto
  have rest: "\<And>acc'. \<exists>us. requested (snd (fetch_sections_loop e c is f1 acc')) = requested f @ us
        \<and> set us \<subseteq> section_url f c ` set (i # is)"
  proof -
    fix acc'
    from Cons.IH [of f1 acc'] obtain us where
      us: "requested (snd (fetch_sections_loop e c is f1 acc')) = requested f1 @ us"
        "set us \<subseteq> section_url f1 c ` set is"
      by blast
    have "section_url f1 c = section_url f c"
      using b1 by (auto simp: section_url_def)
    with us u1 have "requested (snd (fetch_sections_loop e c is f1 acc')) = requested f @ (u1 @ us)
       \<and> set (u1 @ us) \<subseteq> section_url f c ` set (i # is)"
      by auto
    then show "\<exists>us. requested (snd (fetch_sections_loop e c is f1 acc')) = requested f @ us
        \<and> set us \<subseteq> section_url f c ` set (i # is)"
      by blast
  qed
  have stop: "\<exists>us. requested f1 = requested f @ us \<and> set us \<subseteq> section_url f c ` set (i # is)"
    using u1 by auto
  show ?case
  proof (cases r)
    case (Inr sec)
    with step rest show ?thesis by simp
  next
    case (Inl err)
    with step rest stop show ?thesis
      by (cases err) simp_all
  qed
qed

lemma loop_not_requested_again:
  assumes "i \<notin> set is"
  shows "count_list (requested (snd (fetch_sections_loop e c is f acc))) (section_url f c i)
       = count_list (requested f) (section_url f c i)"
proof -
  from loop_requested [of e c "is" f acc] obtain us where
    us: "requested (snd (fetch_sections_loop e c is f acc)) = requested f @ us"
      "set us \<subseteq> section_url f c ` set is"
    by blast
  have "section_url f c i \<notin> set us"
  proof
    assume "section_url f c i \<in> set us"
    with us(2) obtain j where "j \<in> set is" "section_url f c i = section_url f c j" by auto
    with assms show False using section_url_inj by blast
  qed
  then have "count_list us (section_url f c i) = 0" by simp
  with us(1) show ?thesis by simp
qed





lemma loop_numbered:
  "fetch_sections_loop e c is f acc =
     (case fetch_sections_numbered e c is f of
        (Inl err, f1) \<Rightarrow> (Inl err, f1)
      | (Inr ps, f1) \<Rightarrow> (Inr (acc @ map snd ps), f1))"
proof (induction "is" arbitrary: f acc)
  case Nil
  then show ?case by simp
next
  case (Cons i "is")
  show ?case
  proof (cases "fetch_section e (section_citation c i) True False f")
    case (Pair r f1)
    show ?thesis
    proof (cases r)
      case (Inr sec)
      with Pair Cons.IH [of f1 "acc @ [sec]"] show ?thesis
        by (simp split: prod.splits sum.splits)
    next
      case (Inl err)
      with Pair Cons.IH [of f1 acc] show ?thesis
        by (cases err) (simp_all split: prod.splits sum.splits)
    qed
  qed
qed

lemma numbered_indices:
  "fetch_sections_numbered e c is f = (Inr ps, f2) \<Longrightarrow> sorted_wrt (<) is
     \<Longrightarrow> sorted_wrt (<) (map fst ps) \<and> set (map fst ps) \<subseteq> set is"
proof (induction "is" arbitrary: f ps)
  case Nil
  then show ?case by simp
next
  case (Cons i "is")
  from Cons.prems(2) have sorted_is: "sorted_wrt (<) is" and above: "\<forall>j\<in>set is. i < j"
    by simp_all
  show ?case
  proof (cases "fetch_section e (section_citation c i) True False f")
    case (Pair r f1)
    show ?thesis
    proof (cases r)
      case (Inr sec)
      with Pair Cons.prems(1) obtain qs where
        qs: "fetch_sections_numbered e c is f1 = (Inr qs, f2)" "ps = (i, sec) # qs"
        by (auto split: prod.splits sum.splits)
      from Cons.IH [OF qs(1) sorted_is]
      have "sorted_wrt (<) (map fst qs)" "set (map fst qs) \<subseteq> set is" by simp_all
      with qs(2) above show ?thesis by auto
    next
      case (Inl err)
      with Pair Cons.prems(1) have "fetch_sections_numbered e c is f1 = (Inr ps, f2)"
        by (cases err) (auto split: if_splits)
      from Cons.IH [OF this sorted_is] show ?thesis by auto
    qed
  qed
qed

lemma sorted_upto_less: "sorted_wrt (<) [a..b::int]"
  by (simp add: sorted_wrt_upto)

lemma section_range_bounded:
  "n \<noteq> 0 \<Longrightarrow> m \<noteq> Some 0 \<Longrightarrow>
   section_range (Some n) m = [1..(case m of None \<Rightarrow> n | Some k \<Rightarrow> min n k)]"
  by (simp add: section_range_def split: option.splits)








text \<open>
  The two halves of \<open>_rate_limit\<close>, run with nothing in between, are \<open>_rate_limit\<close>
  as one step, and \<open>_fetch_xml\<close> is \<open>_rate_limit\<close> followed by the request.
\<close>

lemma rate_limit_split:
  "rate_limit f = rate_limit_stamp (wake (clock f + rate_limit_sleep f) f)"
  by (simp add: rate_limit_def rate_limit_sleep_def rate_limit_stamp_def wake_def Let_def max_def)

lemma fetch_xml_split: "fetch_xml e url f = send_request e url (rate_limit f)"
  by (simp add: fetch_xml_def send_request_def Let_def)


section \<open>The cache is consulted before the network\<close>

text \<open>
  C3: when the cache file of a citation exists and \<open>force\<close> is false, \<open>fetch_section\<close>
  and \<open>fetch_act_metadata\<close> return what the parser makes of the cached text and leave the
  fetcher, its files and the list of requests as they were. In general each of the two
  methods sends exactly one request, for the URL of the citation, when \<open>force\<close> is true or
  the cache file is missing, and no request otherwise.
\<close>

theorem cache_hit_no_network:
  "(files f (cache_path (data_dir f) c) = Some xml \<longrightarrow>
      fetch_section e c cache False f = (parsed (parse_section e xml), f)
    \<and> fetch_act_metadata e c cache False f = (parsed (parse_act_metadata e xml), f))
   \<and> requested (snd (fetch_section e c cache force f)) =
     (if force \<or> files f (cache_path (data_dir f) c) = None
      then requested f @ [build_url (base_url f) c []] else requested f)
   \<and> requested (snd (fetch_act_metadata e c cache force f)) =
     (if force \<or> files f (cache_path (data_dir f) c) = None
      then requested f @ [build_url (base_url f) c []] else requested f)"
proof -
  have hit: "files f (cache_path (data_dir f) c) = Some xml \<Longrightarrow>
      fetch_section e c cache False f = (parsed (parse_section e xml), f)
    \<and> fetch_act_metadata e c cache False f = (parsed (parse_act_metadata e xml), f)"
    by (simp add: fetch_section_cases fetch_act_metadata_cases)
  have "requested (snd (fetch_section e c cache force f)) =
     (if force \<or> files f (cache_path (data_dir f) c) = None
      then requested f @ [build_url (base_url f) c []] else requested f)"
    by (simp add: fetch_section_requested)
  moreover have "requested (snd (fetch_act_metadata e c cache force f)) =
     (if force \<or> files f (cache_path (data_dir f) c) = None
      then requested f @ [build_url (base_url f) c []] else requested f)"
    by (simp add: fetch_act_metadata_requested)
  ultimately show ?thesis
    using hit by blast
qed

text \<open>
  C3 at a fetcher whose cache holds the document of the act: both methods answer from the
  cache, and no request has been sent.
\<close>

theorem cache_hit_no_network_witness:
  "files cached_fetcher (cache_path (data_dir cached_fetcher) ukpga_2003_1) = Some ''<act/>''
   \<and> fetch_act_metadata (scripted_env always_ok (Some 3)) ukpga_2003_1 True False cached_fetcher
     = (Inr \<lparr>act_title = ''<act/>'', section_count = Some 3\<rparr>, cached_fetcher)
   \<and> fetch_section (scripted_env always_ok (Some 3)) ukpga_2003_1 True False cached_fetcher
     = (Inr ''<act/>'', cached_fetcher)
   \<and> requested cached_fetcher = []"
proof -
  have h: "files cached_fetcher (cache_path (data_dir cached_fetcher) ukpga_2003_1) = Some ''<act/>''"
    by (simp add: cached_fetcher_def)
  have r: "requested cached_fetcher = []"
    by (simp add: cached_fetcher_def new_fetcher_def init_def requested_def)
  from cache_hit_no_network [where f = cached_fetcher and c = ukpga_2003_1 and xml = "''<act/>''"
      and e = "scripted_env always_ok (Some 3)" and cache = True and force = False] h r
  show ?thesis by (simp add: scripted_env_def)
qed

section \<open>Rate limiting\<close>




section \<open>Failures while the sections of an act are fetched\<close>

text \<open>
  C1, as stated, does not hold: no fetch is retried, and a failure other than a 404 ends
  \<open>fetch_act_sections\<close>. With a server that answers the request for section 1 with a
  503 and would answer any later request with a document, the method raises the status
  error; section 1 has been requested once and section 2 never.
\<close>

theorem transient_failure_not_retried:
  "fst (fetch_act_sections (scripted_env fails_once_503 (Some 2)) ukpga_2003_1 None new_fetcher)
     = Inl (HTTPStatusError 503)
   \<and> requested (snd (fetch_act_sections (scripted_env fails_once_503 (Some 2))
                        ukpga_2003_1 None new_fetcher))
     = [''https://www.legislation.gov.uk/ukpga/2003/1/data.xml'',
        ''https://www.legislation.gov.uk/ukpga/2003/1/section/1/data.xml'']"
  by code_simp

text \<open>
  C1, amended: a section fetch that fails in the HTTP client with anything but a 404
  status (a 5xx or other status error, a timeout, a connection error) is not retried. The
  section has been requested exactly once, the exception leaves the loop of
  \<open>fetch_act_sections\<close> at once, the remaining citations of the act are not fetched and
  no section is returned.
\<close>

theorem reraised_failure_ends_fetch:
  assumes "fetch_section e (section_citation c i) True False f = (Inl err, f1)"
    and "reraised err"
  shows "fetch_sections_loop e c (i # is) f sections = (Inl err, f1)
       \<and> requested f1 = requested f @ [section_url f c i]"
proof -
  from assms(2) have "err \<noteq> ParseError" by auto
  with assms(1) have "requested f1 = requested f @ [section_url f c i]"
    unfolding section_url_def by (rule fetch_section_http_error)
  moreover from assms have "fetch_sections_loop e c (i # is) f sections = (Inl err, f1)"
    by (cases err) simp_all
  ultimately show ?thesis by simp
qed

text \<open>
  The amended C1 where section 1 of two is answered with a 503: the loop ends with that
  error in the state the one failed fetch left.
\<close>

theorem reraised_failure_ends_fetch_witness:
  "reraised (HTTPStatusError 503)
   \<and> fetch_sections_loop (scripted_env fails_once_503 (Some 2)) ukpga_2003_1 [1, 2]
        (snd (fetch_act_metadata (scripted_env fails_once_503 (Some 2)) ukpga_2003_1 True False new_fetcher)) []
     = (Inl (HTTPStatusError 503),
        snd (fetch_section (scripted_env fails_once_503 (Some 2)) (section_citation ukpga_2003_1 1) True False
              (snd (fetch_act_metadata (scripted_env fails_once_503 (Some 2)) ukpga_2003_1 True False new_fetcher))))"
proof -
  let ?e = "scripted_env fails_once_503 (Some 2)"
  let ?f = "snd (fetch_act_metadata ?e ukpga_2003_1 True False new_fetcher)"
  have "fst (fetch_section ?e (section_citation ukpga_2003_1 1) True False ?f) = Inl (HTTPStatusError 503)"
    by code_simp
  then have h: "fetch_section ?e (section_citation ukpga_2003_1 1) True False ?f
      = (Inl (HTTPStatusError 503), snd (fetch_section ?e (section_citation ukpga_2003_1 1) True False ?f))"
    by (metis prod.collapse)
  have r: "reraised (HTTPStatusError 503)" by simp
  from reraised_failure_ends_fetch [OF h r, of "[2]" "[]"] r show ?thesis by simp
qed

text \<open>
  C2, as stated, does not hold of every citation: the handler for the 404 is inside the
  loop over the sections, and the fetch of the act's own citation precedes the loop,
  outside the \<open>try\<close>. With a server that answers the request for the act with a 404 and
  would answer any later request with a document, \<open>fetch_act_sections\<close> raises the
  status error 404: the citation of the act is not skipped, and no section of the act is
  requested.
\<close>

theorem act_not_found_raises:
  "fst (fetch_act_sections (scripted_env act_not_found (Some 2)) ukpga_2003_1 None new_fetcher)
     = Inl (HTTPStatusError 404)
   \<and> requested (snd (fetch_act_sections (scripted_env act_not_found (Some 2))
                        ukpga_2003_1 None new_fetcher))
     = [''https://www.legislation.gov.uk/ukpga/2003/1/data.xml'']"
  by code_simp

text \<open>
  C2, amended: when the fetch of a section citation in the loop of
  \<open>fetch_act_sections\<close> raises the status error 404, the loop goes on with the
  remaining section numbers, from the state the fetch left and with the collected
  sections unchanged, so the outcome is that of the remaining citations and not a
  failure. The section has been requested exactly once, and when its number is not among
  the remaining ones (as in a range, where every number occurs once) its URL is requested
  no further time until the loop ends.
\<close>

theorem not_found_is_skipped:
  assumes "fetch_section e (section_citation c i) True False f = (Inl (HTTPStatusError 404), f1)"
  shows "fetch_sections_loop e c (i # is) f sections = fetch_sections_loop e c is f1 sections
       \<and> requested f1 = requested f @ [section_url f c i]
       \<and> (i \<notin> set is \<longrightarrow>
            count_list (requested (snd (fetch_sections_loop e c (i # is) f sections)))
                       (section_url f c i)
            = count_list (requested f) (section_url f c i) + 1)"
proof -
  have loop: "fetch_sections_loop e c (i # is) f sections = fetch_sections_loop e c is f1 sections"
    using assms by simp
  have req: "requested f1 = requested f @ [section_url f c i]"
    using assms unfolding section_url_def by (rule fetch_section_http_error) simp
  have b1: "base_url f1 = base_url f"
    using fetch_section_fields(1) [of e "section_citation c i" True False f] assms by simp
  have "i \<notin> set is \<Longrightarrow>
      count_list (requested (snd (fetch_sections_loop e c is f1 sections))) (section_url f c i)
      = count_list (requested f) (section_url f c i) + 1"
  proof -
    assume "i \<notin> set is"
    then have "count_list (requested (snd (fetch_sections_loop e c is f1 sections))) (section_url f1 c i)
      = count_list (requested f1) (section_url f1 c i)"
      by (rule loop_not_requested_again)
    moreover have "section_url f1 c i = section_url f c i"
      using b1 by (simp add: section_url_def)
    ultimately show ?thesis
      using req by simp
  qed
  with loop req show ?thesis by simp
qed

text \<open>
  The amended C2 where section 1 of two is answered with a 404: the loop continues with
  section 2, and
  the URL of section 1 occurs once more in the list of requests than before the loop.
\<close>

theorem not_found_is_skipped_witness:
  "(1::int) \<notin> set [2]
   \<and> fetch_sections_loop (scripted_env not_found_once (Some 2)) ukpga_2003_1 [1, 2]
        (snd (fetch_act_metadata (scripted_env not_found_once (Some 2)) ukpga_2003_1 True False new_fetcher)) []
     = fetch_sections_loop (scripted_env not_found_once (Some 2)) ukpga_2003_1 [2]
        (snd (fetch_section (scripted_env not_found_once (Some 2)) (section_citation ukpga_2003_1 1) True False
              (snd (fetch_act_metadata (scripted_env not_found_once (Some 2)) ukpga_2003_1 True False new_fetcher)))) []
   \<and> count_list
        (requested (snd (fetch_sections_loop (scripted_env not_found_once (Some 2)) ukpga_2003_1 [1, 2]
           (snd (fetch_act_metadata (scripted_env not_found_once (Some 2)) ukpga_2003_1 True False new_fetcher)) [])))
        (section_url (snd (fetch_act_metadata (scripted_env not_found_once (Some 2)) ukpga_2003_1 True False new_fetcher))
           ukpga_2003_1 1)
     = count_list
        (requested (snd (fetch_act_metadata (scripted_env not_found_once (Some 2)) ukpga_2003_1 True False new_fetcher)))
        (section_url (snd (fetch_act_metadata (scripted_env not_found_once (Some 2)) ukpga_2003_1 True False new_fetcher))
           ukpga_2003_1 1) + 1"
proof -
  let ?e = "scripted_env not_found_once (Some 2)"
  let ?f = "snd (fetch_act_metadata ?e ukpga_2003_1 True False new_fetcher)"
  have "fst (fetch_section ?e (section_citation ukpga_2003_1 1) True False ?f) = Inl (HTTPStatusError 404)"
    by code_simp
  then have h: "fetch_section ?e (section_citation ukpga_2003_1 1) True False ?f
      = (Inl (HTTPStatusError 404), snd (fetch_section ?e (section_citation ukpga_2003_1 1) True False ?f))"
    by (metis prod.collapse)
  have n: "(1::int) \<notin> set [2]" by simp
  from not_found_is_skipped [OF h, of "[2]" "[]"] n show ?thesis by blast
qed

section \<open>The section numbers enumerated\<close>

text \<open>
  C4 at an act of three sections and \<open>max_sections = 0\<close>. The docstring of
  \<open>fetch_act_sections\<close> calls \<open>max_sections\<close> the maximum number of sections to
  fetch, and \<open>None\<close> is its value for no bound; but the bound is applied under the test
  \<open>if max_sections\<close>, which a given 0 fails like \<open>None\<close>. The method requests the
  sections 1, 2 and 3 and returns three sections, where
  \<open>min(section_count, max_sections)\<close> is 0 and no section is to be fetched.
\<close>

theorem zero_max_sections_is_no_bound:
  "fst (fetch_act_sections (scripted_env always_ok (Some 3)) ukpga_2003_1 (Some 0) new_fetcher)
     = Inr [''<x/>'', ''<x/>'', ''<x/>'']
   \<and> requested (snd (fetch_act_sections (scripted_env always_ok (Some 3))
                        ukpga_2003_1 (Some 0) new_fetcher))
     = [''https://www.legislation.gov.uk/ukpga/2003/1/data.xml'',
        ''https://www.legislation.gov.uk/ukpga/2003/1/section/1/data.xml'',
        ''https://www.legislation.gov.uk/ukpga/2003/1/section/2/data.xml'',
        ''https://www.legislation.gov.uk/ukpga/2003/1/section/3/data.xml'']"
  by code_simp

text \<open>
  Away from the two zeros the enumeration is the documented one: for an act whose
  metadata carry a section count \<open>n\<close> other than 0, \<open>fetch_act_sections\<close> visits the
  section numbers from 1 up to \<open>n\<close> when \<open>max_sections\<close> is absent, and from 1 up
  to \<open>min(n, max_sections)\<close> when \<open>max_sections\<close> is given and is not 0. The
  sections returned are those fetched for a strictly ascending list of numbers of that
  range, in that order.
\<close>

lemma sections_enumerated_in_order:
  assumes "fetch_act_metadata e c True False f = (Inr act, f1)"
    and "section_count act = Some n" and "n \<noteq> 0" and "max_sections \<noteq> Some 0"
  shows "fetch_act_sections e c max_sections f =
           fetch_sections_loop e c [1..(case max_sections of None \<Rightarrow> n | Some k \<Rightarrow> min n k)] f1 []
       \<and> (case fetch_sections_numbered e c
                 [1..(case max_sections of None \<Rightarrow> n | Some k \<Rightarrow> min n k)] f1 of
             (Inl err, f2) \<Rightarrow> fetch_act_sections e c max_sections f = (Inl err, f2)
           | (Inr ps, f2) \<Rightarrow>
               fetch_act_sections e c max_sections f = (Inr (map snd ps), f2) \<and>
               sorted_wrt (<) (map fst ps) \<and>
               set (map fst ps) \<subseteq> {1..(case max_sections of None \<Rightarrow> n | Some k \<Rightarrow> min n k)})"
proof -
  let ?b = "case max_sections of None \<Rightarrow> n | Some k \<Rightarrow> min n k"
  have run: "fetch_act_sections e c max_sections f = fetch_sections_loop e c [1..?b] f1 []"
    using assms by (simp add: fetch_act_sections_def section_range_bounded)
  show ?thesis
  proof (cases "fetch_sections_numbered e c [1..?b] f1")
    case (Pair r f2)
    show ?thesis
    proof (cases r)
      case (Inl err)
      with Pair run show ?thesis
        by (simp add: loop_numbered)
    next
      case (Inr ps)
      with Pair have "sorted_wrt (<) (map fst ps) \<and> set (map fst ps) \<subseteq> set [1..?b]"
        using numbered_indices sorted_upto_less by blast
      with Inr Pair run show ?thesis
        by (simp add: loop_numbered)
    qed
  qed
qed

text \<open>
  An act of three sections and \<open>max_sections = 2\<close>: the loop runs over 1 and 2.
\<close>

lemma sections_enumerated_in_order_witness:
  "(3::int) \<noteq> 0 \<and> Some (2::int) \<noteq> Some 0
   \<and> fetch_act_sections (scripted_env always_ok (Some 3)) ukpga_2003_1 (Some 2) new_fetcher
     = fetch_sections_loop (scripted_env always_ok (Some 3)) ukpga_2003_1 [1..2]
         (snd (fetch_act_metadata (scripted_env always_ok (Some 3)) ukpga_2003_1 True False new_fetcher)) []"
proof -
  let ?e = "scripted_env always_ok (Some 3)"
  let ?act = "\<lparr>act_title = ''<x/>'', section_count = Some 3\<rparr>"
  have "fst (fetch_act_metadata ?e ukpga_2003_1 True False new_fetcher) = Inr ?act"
    by code_simp
  then have h: "fetch_act_metadata ?e ukpga_2003_1 True False new_fetcher
      = (Inr ?act, snd (fetch_act_metadata ?e ukpga_2003_1 True False new_fetcher))"
    by (metis prod.collapse)
  have c: "section_count ?act = Some 3" by simp
  have n: "(3::int) \<noteq> 0" by simp
  have m: "Some (2::int) \<noteq> Some 0" by simp
  from sections_enumerated_in_order [OF h c n m] show ?thesis by simp
qed



section \<open>The registry\<close>

lemma update_nonempty: "AList.update k v al \<noteq> []"
  by (cases al) auto

lemma register_lookup:
  "lower j' = lower j \<Longrightarrow>
   fst (get_config_for_jurisdiction builtin yaml j' (register_source j c cfgs)) = Some c"
  by (simp add: get_config_for_jurisdiction_def get_all_configs_def register_source_def
      update_nonempty update_Some_unfold map_of_eq_Some_iff AList.update_conv')

lemma lower_us_ny: "lower ''us-ny'' = ''us-ny''"
  by code_simp

lemma get_source_unfold:
  "fst (get_config_for_jurisdiction builtin yaml j cfgs) = Some config \<Longrightarrow>
   fst (get_source_for_jurisdiction builtin yaml j cfgs) =
     Some (if source_type config = ''uslm'' then USLMSource config
           else if source_type config = ''api''
                then (if j = ''us-ny'' then NYLegislationSource (api_key config)
                      else APISource config)
           else HTMLSource config)"
  by (cases "get_config_for_jurisdiction builtin yaml j cfgs")
     (simp add: get_source_for_jurisdiction_def)

text \<open>
  C10: the lookup of a jurisdiction does not depend on the case of its letters.
  \<open>get_config_for_jurisdiction\<close> gives for \<open>j\<close> what it gives for \<open>j\<close> in lower
  case, and after \<open>register_source(j, c)\<close> the lookup of any string that agrees with
  \<open>j\<close> up to case gives \<open>c\<close>. Case is that of the ASCII letters.
\<close>

theorem lookup_case_insensitive:
  "fst (get_config_for_jurisdiction builtin yaml j cfgs)
     = fst (get_config_for_jurisdiction builtin yaml (lower j) cfgs)
   \<and> (lower j' = lower j \<longrightarrow>
        fst (get_config_for_jurisdiction builtin yaml j' (register_source j c cfgs)) = Some c)"
  by (simp add: register_lookup) (simp add: get_config_for_jurisdiction_def lower_idem)

text \<open>
  C10 for a configuration registered as \<open>US-CA\<close> and looked up as \<open>us-Ca\<close>, and for
  a built-in configuration of \<open>us-ca\<close> looked up as \<open>US-CA\<close>.
\<close>

theorem lookup_case_insensitive_witness:
  "lower ''us-Ca'' = lower ''US-CA''
   \<and> fst (get_config_for_jurisdiction [(''us-ca'', api_config)] [] ''us-Ca''
            (register_source ''US-CA'' api_config [])) = Some api_config
   \<and> fst (get_config_for_jurisdiction [(''us-ca'', api_config)] [] ''US-CA'' [])
     = fst (get_config_for_jurisdiction [(''us-ca'', api_config)] [] (lower ''US-CA'') [])"
proof -
  have h: "lower ''us-Ca'' = lower ''US-CA''" by code_simp
  from lookup_case_insensitive [where builtin = "[(''us-ca'', api_config)]" and yaml = "[]"
      and j = "''US-CA''" and cfgs = "[]" and j' = "''us-Ca''" and c = api_config] h
  show ?thesis by simp
qed

text \<open>
  C5, as stated, does not hold: \<open>get_source_for_jurisdiction\<close> compares the
  jurisdiction with \<open>us-ny\<close>. With one and the same configuration of source type
  \<open>api\<close> registered for \<open>us-ny\<close> and for \<open>us-xx\<close>, the first gets a
  \<open>NYLegislationSource\<close> and the second an \<open>APISource\<close>.
\<close>

theorem same_source_type_different_adapter:
  "map_option adapter_class (fst (get_source_for_jurisdiction [] [] ''us-ny'' two_api_registry))
     = Some ''NYLegislationSource''
   \<and> map_option adapter_class (fst (get_source_for_jurisdiction [] [] ''us-xx'' two_api_registry))
     = Some ''APISource''
   \<and> fst (get_config_for_jurisdiction [] [] ''us-ny'' two_api_registry)
     = fst (get_config_for_jurisdiction [] [] ''us-xx'' two_api_registry)"
  by code_simp

text \<open>
  C5, amended: for a jurisdiction other than \<open>us-ny\<close> (in any case of its letters) the
  adapter is chosen by the source type of its configuration alone: \<open>uslm\<close> gives a
  \<open>USLMSource\<close>, \<open>api\<close> an \<open>APISource\<close>, every other type an \<open>HTMLSource\<close>,
  each built from the configuration; so two such jurisdictions with the same source type
  get the same adapter class. The jurisdiction \<open>us-ny\<close> with the source type \<open>api\<close>
  gets a \<open>NYLegislationSource\<close> built from the API key of its configuration.
\<close>

theorem adapter_by_source_type:
  assumes "fst (get_config_for_jurisdiction builtin yaml j1 cfgs) = Some c1"
    and "fst (get_config_for_jurisdiction builtin yaml j2 cfgs) = Some c2"
    and "source_type c1 = source_type c2"
    and "lower j1 \<noteq> ''us-ny''" and "lower j2 \<noteq> ''us-ny''"
  shows "fst (get_source_for_jurisdiction builtin yaml j1 cfgs) =
           Some (if source_type c1 = ''uslm'' then USLMSource c1
                 else if source_type c1 = ''api'' then APISource c1 else HTMLSource c1)
       \<and> map_option adapter_class (fst (get_source_for_jurisdiction builtin yaml j1 cfgs))
         = map_option adapter_class (fst (get_source_for_jurisdiction builtin yaml j2 cfgs))
       \<and> (\<forall>c. fst (get_config_for_jurisdiction builtin yaml ''us-ny'' cfgs) = Some c
               \<and> source_type c = ''api'' \<longrightarrow>
             fst (get_source_for_jurisdiction builtin yaml ''us-ny'' cfgs)
               = Some (NYLegislationSource (api_key c)))"
proof -
  from assms(4,5) lower_us_ny have ne: "j1 \<noteq> ''us-ny''" "j2 \<noteq> ''us-ny''" by auto
  from ne assms show ?thesis
    by (simp add: get_source_unfold)
qed

text \<open>
  The amended C5 for \<open>us-xx\<close> and \<open>US-XX\<close>, which share a configuration of source
  type \<open>api\<close>: both get an \<open>APISource\<close>.
\<close>

theorem adapter_by_source_type_witness:
  "fst (get_config_for_jurisdiction [] [] ''us-xx'' two_api_registry) = Some api_config
   \<and> fst (get_config_for_jurisdiction [] [] ''US-XX'' two_api_registry) = Some api_config
   \<and> lower ''us-xx'' \<noteq> ''us-ny'' \<and> lower ''US-XX'' \<noteq> ''us-ny''
   \<and> fst (get_source_for_jurisdiction [] [] ''us-xx'' two_api_registry) = Some (APISource api_config)
   \<and> map_option adapter_class (fst (get_source_for_jurisdiction [] [] ''us-xx'' two_api_registry))
     = map_option adapter_class (fst (get_source_for_jurisdiction [] [] ''US-XX'' two_api_registry))"
proof -
  have h1: "fst (get_config_for_jurisdiction [] [] ''us-xx'' two_api_registry) = Some api_config"
    by code_simp
  have h2: "fst (get_config_for_jurisdiction [] [] ''US-XX'' two_api_registry) = Some api_config"
    by code_simp
  have h3: "source_type api_config = source_type api_config" by simp
  have h4: "lower ''us-xx'' \<noteq> ''us-ny''" by code_simp
  have h5: "lower ''US-XX'' \<noteq> ''us-ny''" by code_simp
  have st: "source_type api_config = ''api''" by (simp add: api_config_def)
  note r = adapter_by_source_type [OF h1 h2 h3 h4 h5]
  from r st have a: "fst (get_source_for_jurisdiction [] [] ''us-xx'' two_api_registry)
      = Some (APISource api_config)"
    by simp
  from r have b: "map_option adapter_class (fst (get_source_for_jurisdiction [] [] ''us-xx'' two_api_registry))
     = map_option adapter_class (fst (get_source_for_jurisdiction [] [] ''US-XX'' two_api_registry))"
    by blast
  from h1 h2 h4 h5 a b show ?thesis by blast
qed

section \<open>The drop listing\<close>

text \<open>
  C8: the listing with the one link to \<open>rp-24-40.pdf\<close> gives exactly one document, a
  Revenue Procedure with the number \<open>2024-40\<close> and the year 2024; the listing with the
  one link to \<open>p1544.pdf\<close> gives no document.
\<close>

theorem drop_listing_scenario:
  "parse_irs_drop_listing ''<a href=\"rp-24-40.pdf\">rp-24-40.pdf</a>'' None None
     = [\<lparr>doc_type = REV_PROC, doc_number = ''2024-40'', year = 2024,
         pdf_filename = ''rp-24-40.pdf''\<rparr>]
   \<and> guidance_label REV_PROC = ''Revenue Procedure''
   \<and> parse_irs_drop_listing ''<a href=\"p1544.pdf\">p1544.pdf</a>'' None None = []"
  by code_simp


end
